theory Spec2Isabelle
  imports Main "HOL-Library.Word"
begin

section \<open>lib/go/thrift/socket\_conn.go: a net.Conn wrapper with a connectivity check\<close>

text \<open>
  The Go file declares \<^verbatim>\<open>socketConn\<close>, a struct that embeds a \<^verbatim>\<open>net.Conn\<close> and
  owns a \<^verbatim>\<open>bytes.Buffer\<close>, two constructors and the methods \<^verbatim>\<open>isValid\<close>,
  \<^verbatim>\<open>IsOpen\<close>, \<^verbatim>\<open>Read\<close> and \<^verbatim>\<open>CheckReadable\<close>.

  Conventions of the embedding:
  \<^item> a Go \<^verbatim>\<open>error\<close> value is an \<open>error option\<close>, \<open>None\<close> being \<^verbatim>\<open>nil\<close>;
  \<^item> a pointer or an interface value is an \<open>option\<close>, \<open>None\<close> being \<^verbatim>\<open>nil\<close>;
  \<^item> a run-time panic is the left summand of the result, so a method returns
    \<open>panic + (results \<times> receiver after the call)\<close>;
  \<^item> a byte slice handed to a reader is the list of its elements; its length never changes;
  \<^item> \<^verbatim>\<open>time.Time\<close> is a number of nanoseconds, the zero \<^verbatim>\<open>time.Time{}\<close> being \<open>0\<close>.
\<close>

subsection \<open>Values of the Go runtime and standard library\<close>

type_synonym byte = "8 word"

type_synonym Time = int

datatype error = io_EOF | ErrTimeout | ErrOther string

datatype panic = NilPointerDereference

definition time_zero :: Time where
  "time_zero = 0"

definition time_Add :: "Time \<Rightarrow> int \<Rightarrow> Time" where
  "time_Add t d = t + d"

text \<open>
  The interface \<^verbatim>\<open>net.Conn\<close>, as far as this file calls it: the method table of a
  dynamic type whose values are \<open>'n\<close>. \<open>conn_Read c m\<close> is a call of \<^verbatim>\<open>Read\<close> with a
  slice of length \<open>m\<close>; it gives the bytes the connection delivered (their count is the
  \<^verbatim>\<open>n\<close> that Go returns), the error, and the connection afterwards.
  \<^verbatim>\<open>SetReadDeadline\<close> also returns an error in Go; both calls of the source discard it.
\<close>

record 'n net_Conn =
  conn_Read :: "'n \<Rightarrow> nat \<Rightarrow> byte list \<times> error option \<times> 'n"
  conn_SetReadDeadline :: "'n \<Rightarrow> Time \<Rightarrow> 'n"

text \<open>
  What a reader leaves in the slice \<open>q\<close> it was given when it delivers the bytes \<open>d\<close>:
  the delivered bytes in front, the rest of the slice as it was.
\<close>

definition slice_store :: "byte list \<Rightarrow> byte list \<Rightarrow> byte list" where
  "slice_store q d = take (length q) (d @ drop (length d) q)"

text \<open>
  \<^verbatim>\<open>bytes.Buffer\<close>, by its unread bytes. \<^verbatim>\<open>Read\<close> on an empty buffer returns
  \<^verbatim>\<open>(0, io.EOF)\<close> unless the slice is empty; otherwise it copies
  \<^verbatim>\<open>min(len(p), Len())\<close> bytes and returns a nil error. The result is the count, the
  error, the slice afterwards and the buffer afterwards. \<^verbatim>\<open>Write\<close> appends.
\<close>

definition bytes_Buffer_Read ::
  "byte list \<Rightarrow> byte list \<Rightarrow> nat \<times> error option \<times> byte list \<times> byte list" where
  "bytes_Buffer_Read b p =
     (if b = [] then (if length p = 0 then (0, None, p, b) else (0, Some io_EOF, p, b))
      else (let n = min (length p) (length b)
            in (n, None, take n b @ drop n p, drop n b)))"

definition bytes_Buffer_Write :: "byte list \<Rightarrow> byte list \<Rightarrow> byte list" where
  "bytes_Buffer_Write b p = b @ p"

subsection \<open>The struct and its constructors\<close>

text \<open>
  \<^verbatim>\<open>type socketConn struct { net.Conn; buf bytes.Buffer }\<close>. The embedded interface
  value is \<open>None\<close> when it is nil.
\<close>

record 'n socketConn =
  Conn :: "'n option"
  buf :: "byte list"

text \<open>
  For the constructors the identity of a \<^verbatim>\<open>*socketConn\<close> matters, so they work on a
  store: the list of the structs allocated so far, a pointer being \<open>Some\<close> index or nil.
  A non-nil \<^verbatim>\<open>net.Conn\<close> has a dynamic type: it is a \<^verbatim>\<open>*socketConn\<close> (possibly a
  nil pointer), or a connection of another type.
\<close>

type_synonym ptr = "nat option"

datatype 'c dyn = Other 'c | SocketConnPtr ptr

type_synonym 'c store = "'c dyn socketConn list"

definition new_socketConn :: "'c store \<Rightarrow> 'c dyn socketConn \<Rightarrow> ptr \<times> 'c store" where
  "new_socketConn h v = (Some (length h), h @ [v])"

definition createSocketConnFromReturn ::
  "'c store \<Rightarrow> 'c dyn option \<Rightarrow> error option \<Rightarrow> (ptr \<times> error option) \<times> 'c store" where
  "createSocketConnFromReturn h conn err =
     (if err \<noteq> None then ((None, err), h)
      else (let (p, h') = new_socketConn h \<lparr>Conn = conn, buf = []\<rparr>
            in ((p, None), h')))"

definition wrapSocketConn :: "'c store \<Rightarrow> 'c dyn option \<Rightarrow> ptr \<times> 'c store" where
  "wrapSocketConn h conn =
     (case conn of
        Some (SocketConnPtr sc) \<Rightarrow> (sc, h)
      | _ \<Rightarrow> new_socketConn h \<lparr>Conn = conn, buf = []\<rparr>)"

subsection \<open>The methods\<close>

text \<open>
  The receiver \<^verbatim>\<open>sc *socketConn\<close> is passed as the struct it points to, \<open>None\<close> for
  a nil receiver, and returned as it is after the call.
\<close>

definition isValid :: "'n socketConn option \<Rightarrow> bool" where
  "isValid sc = (case sc of None \<Rightarrow> False | Some s \<Rightarrow> Conn s \<noteq> None)"

text \<open>
  \<^verbatim>\<open>checkConn\<close> and \<^verbatim>\<open>read0\<close> are methods of \<^verbatim>\<open>socketConn\<close> that this file
  calls and does not define. \<open>IsOpen\<close> and \<open>Read\<close> take them as a parameter: a function
  from the receiver to a panic, or an error and the receiver afterwards.
\<close>

type_synonym 'n probe = "'n socketConn option \<Rightarrow> panic + (error option \<times> 'n socketConn option)"

definition IsOpen ::
  "'n probe \<Rightarrow> 'n socketConn option \<Rightarrow> panic + (bool \<times> 'n socketConn option)" where
  "IsOpen checkConn sc =
     (if \<not> isValid sc then Inr (False, sc)
      else (case checkConn sc of
              Inl e \<Rightarrow> Inl e
            | Inr (err, sc') \<Rightarrow> Inr (err = None, sc')))"

text \<open>
  \<open>socketConn_Read ops read0 sc p\<close> returns \<open>((n, err), p', sc')\<close>: the two results of
  Go, the slice \<open>p\<close> after the call and the receiver after the call. Evaluating
  \<^verbatim>\<open>sc.buf\<close> on a nil receiver and calling \<^verbatim>\<open>sc.Conn.Read\<close> on a nil interface
  panic.
\<close>

definition socketConn_Read ::
  "'n net_Conn \<Rightarrow> 'n probe \<Rightarrow> 'n socketConn option \<Rightarrow> byte list \<Rightarrow>
     panic + ((nat \<times> error option) \<times> byte list \<times> 'n socketConn option)" where
  "socketConn_Read ops read0 sc p =
     (if length p = 0 then
        (case read0 sc of
           Inl e \<Rightarrow> Inl e
         | Inr (err, sc') \<Rightarrow> Inr ((0, err), p, sc'))
      else
        (case sc of
           None \<Rightarrow> Inl NilPointerDereference
         | Some s \<Rightarrow>
             (let (n, err, p1, b1) = bytes_Buffer_Read (buf s) p
              in if err \<noteq> None \<and> err \<noteq> Some io_EOF then
                   Inr ((n, err), p1, Some (s\<lparr>buf := b1\<rparr>))
                 else if n = length p then
                   Inr ((n, None), p1, Some (s\<lparr>buf := b1\<rparr>))
                 else
                   (case Conn s of
                      None \<Rightarrow> Inl NilPointerDereference
                    | Some c \<Rightarrow>
                        (let (d, err', c') = conn_Read ops c (length (drop n p1))
                         in Inr ((n + length d, err'),
                                 take n p1 @ slice_store (drop n p1) d,
                                 Some (s\<lparr>Conn := Some c', buf := b1\<rparr>)))))))"

text \<open>
  \<open>CheckReadable ops read0 now sc timeout\<close>; \<open>now\<close> is what \<^verbatim>\<open>time.Now()\<close> returns
  during the call. \<^verbatim>\<open>make([]byte, 1)\<close> is one zero byte, and \<^verbatim>\<open>buf[:]\<close> is the
  whole slice after the read. The receiver is the same pointer throughout the call, so
  the two branches for a receiver or a connection that has become nil after the read
  are never taken; they make the function total.
\<close>

definition CheckReadable ::
  "'n net_Conn \<Rightarrow> 'n probe \<Rightarrow> Time \<Rightarrow> 'n socketConn option \<Rightarrow> int \<Rightarrow>
     panic + (error option \<times> 'n socketConn option)" where
  "CheckReadable ops read0 now sc timeout =
     (case sc of
        None \<Rightarrow> Inl NilPointerDereference
      | Some s \<Rightarrow>
          (case Conn s of
             None \<Rightarrow> Inl NilPointerDereference
           | Some c \<Rightarrow>
               (let s1 = s\<lparr>Conn := Some (conn_SetReadDeadline ops c (time_Add now timeout))\<rparr>
                in case socketConn_Read ops read0 (Some s1) [0] of
                     Inl e \<Rightarrow> Inl e
                   | Inr ((n, err), buf1, sc2) \<Rightarrow>
                       (case sc2 of
                          None \<Rightarrow> Inl NilPointerDereference
                        | Some s2 \<Rightarrow>
                            (let s3 = (if n > 0 then s2\<lparr>buf := bytes_Buffer_Write (buf s2) buf1\<rparr>
                                       else s2)
                             in case Conn s3 of
                                  None \<Rightarrow> Inl NilPointerDereference
                                | Some c3 \<Rightarrow>
                                    Inr (err,
                                         Some (s3\<lparr>Conn := Some (conn_SetReadDeadline ops c3 time_zero)\<rparr>)))))))"

subsection \<open>Callers\<close>

text \<open>
  A caller of one wrapper: a sequence of \<^verbatim>\<open>Read\<close> calls, each with its slice, and
  \<^verbatim>\<open>CheckReadable\<close> calls, each with the clock reading during the call and its timeout.
  \<open>run\<close> makes the calls in order on the receiver and collects what they return; a
  panic ends the run.
\<close>

datatype call = CallRead "byte list" | CallCheckReadable Time int

datatype ret = RetRead nat "error option" "byte list" | RetCheckReadable "error option"

fun run ::
  "'n net_Conn \<Rightarrow> 'n probe \<Rightarrow> 'n socketConn option \<Rightarrow> call list \<Rightarrow>
     panic + (ret list \<times> 'n socketConn option)" where
  "run ops read0 sc [] = Inr ([], sc)"
| "run ops read0 sc (CallRead p # cs) =
     (case socketConn_Read ops read0 sc p of
        Inl e \<Rightarrow> Inl e
      | Inr ((n, err), p', sc') \<Rightarrow>
          (case run ops read0 sc' cs of
             Inl e \<Rightarrow> Inl e
           | Inr (rs, sc'') \<Rightarrow> Inr (RetRead n err p' # rs, sc'')))"
| "run ops read0 sc (CallCheckReadable now timeout # cs) =
     (case CheckReadable ops read0 now sc timeout of
        Inl e \<Rightarrow> Inl e
      | Inr (err, sc') \<Rightarrow>
          (case run ops read0 sc' cs of
             Inl e \<Rightarrow> Inl e
           | Inr (rs, sc'') \<Rightarrow> Inr (RetCheckReadable err # rs, sc'')))"

text \<open>The bytes a \<^verbatim>\<open>Read\<close> gave its caller are \<^verbatim>\<open>p[:n]\<close>; a probe gives none.\<close>

fun ret_bytes :: "ret \<Rightarrow> byte list" where
  "ret_bytes (RetRead n err p) = take n p"
| "ret_bytes (RetCheckReadable err) = []"

definition received :: "ret list \<Rightarrow> byte list" where
  "received rs = concat (map ret_bytes rs)"

fun ret_full :: "ret \<Rightarrow> bool" where
  "ret_full (RetRead n err p) = (n = length p)"
| "ret_full (RetCheckReadable err) = True"

fun call_size :: "call \<Rightarrow> nat" where
  "call_size (CallRead p) = length p"
| "call_size (CallCheckReadable now timeout) = 0"

fun positive_call :: "call \<Rightarrow> bool" where
  "positive_call (CallRead p) = (0 < length p)"
| "positive_call (CallCheckReadable now timeout) = True"

text \<open>The bytes of the receiver's buffer, none for a nil receiver.\<close>

definition pending :: "'n socketConn option \<Rightarrow> byte list" where
  "pending sc = (case sc of None \<Rightarrow> [] | Some s \<Rightarrow> buf s)"

subsection \<open>Connections\<close>

text \<open>
  The contract of \<^verbatim>\<open>io.Reader\<close> on the count: \<^verbatim>\<open>0 <= n <= len(p)\<close>.
\<close>

definition reader_contract :: "'n net_Conn \<Rightarrow> bool" where
  "reader_contract ops = (\<forall>c m. length (fst (conn_Read ops c m)) \<le> m)"

text \<open>
  A connection together with the record of every byte its \<^verbatim>\<open>Read\<close> has delivered,
  in order: the stream as it came off the wire.
\<close>

definition logged :: "'n net_Conn \<Rightarrow> ('n \<times> byte list) net_Conn" where
  "logged ops =
     \<lparr>conn_Read = (\<lambda>(c, l) m. let (d, e, c') = conn_Read ops c m in (d, e, (c', l @ d))),
      conn_SetReadDeadline = (\<lambda>(c, l) t. (conn_SetReadDeadline ops c t, l))\<rparr>"

definition delivered :: "('n \<times> byte list) socketConn option \<Rightarrow> byte list" where
  "delivered sc =
     (case sc of
        None \<Rightarrow> []
      | Some s \<Rightarrow> (case Conn s of None \<Rightarrow> [] | Some (c, l) \<Rightarrow> l))"

text \<open>
  A connection for the examples: the peer has written the bytes \<open>wire\<close> and closed. A
  read takes as many of them as the slice holds, and reports \<^verbatim>\<open>io.EOF\<close> together with
  the last of them, as \<^verbatim>\<open>io.Reader\<close> allows; a read of the empty stream times out when
  a deadline is set and reports \<^verbatim>\<open>io.EOF\<close> otherwise.
\<close>

record testConn =
  wire :: "byte list"
  deadline :: Time

definition test_Read :: "testConn \<Rightarrow> nat \<Rightarrow> byte list \<times> error option \<times> testConn" where
  "test_Read c m =
     (if wire c = [] then
        ([], Some (if deadline c = time_zero then io_EOF else ErrTimeout), c)
      else (take m (wire c),
            (if length (wire c) \<le> m then Some io_EOF else None),
            c\<lparr>wire := drop m (wire c)\<rparr>))"

definition test_ops :: "testConn net_Conn" where
  "test_ops = \<lparr>conn_Read = test_Read, conn_SetReadDeadline = (\<lambda>c t. c\<lparr>deadline := t\<rparr>)\<rparr>"

text \<open>
  A second connection for the examples, one that reads short: its state is the bytes
  still to come, and a read hands over one byte however long the slice is, with a nil
  error. \<^verbatim>\<open>io.Reader\<close> allows a read to return fewer bytes than the slice holds.
\<close>

definition drip_Read :: "byte list \<Rightarrow> nat \<Rightarrow> byte list \<times> error option \<times> byte list" where
  "drip_Read w m =
     (case w of
        [] \<Rightarrow> ([], Some io_EOF, [])
      | x # xs \<Rightarrow> (if m = 0 then ([], None, w) else ([x], None, xs)))"

definition drip_ops :: "byte list net_Conn" where
  "drip_ops = \<lparr>conn_Read = drip_Read, conn_SetReadDeadline = (\<lambda>w t. w)\<rparr>"

subsection \<open>The probe behind a zero-length read\<close>

text \<open>
  Modelled from the spec: \<^verbatim>\<open>read0\<close>, which this file calls for a zero-length
  \<^verbatim>\<open>Read\<close> and which is defined elsewhere in the package. The specification has it
  perform the bounded one-byte attempt of \<open>CheckReadable\<close> with the default timeout and
  read a timeout as "alive": no error. The one-byte read inside \<open>CheckReadable\<close> never
  reaches \<^verbatim>\<open>read0\<close> again, so the probe passed to it there is never called.
\<close>

definition read0_spec :: "'n net_Conn \<Rightarrow> Time \<Rightarrow> int \<Rightarrow> 'n probe" where
  "read0_spec ops now default_timeout sc =
     (case CheckReadable ops (\<lambda>r. Inl NilPointerDereference) now sc default_timeout of
        Inl e \<Rightarrow> Inl e
      | Inr (err, sc') \<Rightarrow> Inr (if err = Some ErrTimeout then None else err, sc'))"

text \<open>
  What the theorems on call sequences ask of \<^verbatim>\<open>read0\<close>: started with at most one byte
  in the buffer, it leaves at most one there.
\<close>

definition read0_bounded :: "'n probe \<Rightarrow> bool" where
  "read0_bounded read0 =
     (\<forall>sc err sc'. length (pending sc) \<le> 1 \<longrightarrow> read0 sc = Inr (err, sc') \<longrightarrow>
        length (pending sc') \<le> 1)"

section \<open>Reading\<close>

lemma bytes_Buffer_Read_pos:
  "0 < length p \<Longrightarrow> bytes_Buffer_Read b p =
     (min (length p) (length b), (if b = [] then Some io_EOF else None),
      take (length p) b @ drop (length b) p, drop (length p) b)"
  by (auto simp: bytes_Buffer_Read_def Let_def min_def)

lemma slice_store_one: "slice_store [z] d = (case d of [] \<Rightarrow> [z] | y # ys \<Rightarrow> [y])"
  by (simp add: slice_store_def split: list.splits)

lemma length_slice_store: "length (slice_store q d) = length q"
  by (simp add: slice_store_def)

lemma slice_store_fits: "length d \<le> length q \<Longrightarrow> slice_store q d = d @ drop (length d) q"
  by (simp add: slice_store_def)

lemma Read_pos:
  assumes "0 < length p"
  shows "socketConn_Read ops read0 (Some s) p =
     (if length p \<le> length (buf s) then
        Inr ((length p, None), take (length p) (buf s),
             Some (s\<lparr>buf := drop (length p) (buf s)\<rparr>))
      else (case Conn s of
              None \<Rightarrow> Inl NilPointerDereference
            | Some c \<Rightarrow>
                (let (d, e, c') = conn_Read ops c (length p - length (buf s))
                 in Inr ((length (buf s) + length d, e),
                         buf s @ slice_store (drop (length (buf s)) p) d,
                         Some (s\<lparr>Conn := Some c', buf := []\<rparr>)))))"
  using assms
  by (auto simp: socketConn_Read_def bytes_Buffer_Read_pos Let_def min_def split: option.splits prod.splits)

lemma Read_zero:
  "socketConn_Read ops read0 sc [] =
     (case read0 sc of Inl e \<Rightarrow> Inl e | Inr (err, sc') \<Rightarrow> Inr ((0, err), [], sc'))"
  by (simp add: socketConn_Read_def)

lemma Read_length:
  assumes "socketConn_Read ops read0 sc p = Inr ((n, e), p', sc')"
  shows "length p' = length p"
proof (cases "p = []")
  case True
  with assms show ?thesis by (auto simp: Read_zero split: sum.splits)
next
  case False
  then have pos: "0 < length p" by simp
  from assms pos obtain s where sc: "sc = Some s"
    by (cases sc) (auto simp: socketConn_Read_def)
  show ?thesis
    using assms pos unfolding sc
    by (auto simp: Read_pos Let_def length_slice_store
        split: if_splits option.splits prod.splits)
qed

lemma Read_pending:
  assumes "socketConn_Read ops read0 sc p = Inr (r, p', sc')"
    and "0 < length p"
  shows "length (pending sc') \<le> length (pending sc)"
proof -
  from assms obtain s where sc: "sc = Some s"
    by (cases sc) (auto simp: socketConn_Read_def)
  show ?thesis
    using assms unfolding sc
    by (auto simp: Read_pos pending_def Let_def split: if_splits option.splits prod.splits)
qed

section \<open>Probing\<close>

lemma CheckReadable_eq:
  "CheckReadable ops read0 now (Some (s\<lparr>Conn := Some c\<rparr>)) timeout =
     (case buf s of
        x # xs \<Rightarrow>
          Inr (None,
               Some (s\<lparr>Conn := Some (conn_SetReadDeadline ops
                                        (conn_SetReadDeadline ops c (time_Add now timeout)) time_zero),
                       buf := xs @ [x]\<rparr>))
      | [] \<Rightarrow>
          (let (d, e, c2) = conn_Read ops (conn_SetReadDeadline ops c (time_Add now timeout)) 1
           in Inr (e,
                   Some (s\<lparr>Conn := Some (conn_SetReadDeadline ops c2 time_zero),
                           buf := (case d of [] \<Rightarrow> [] | y # ys \<Rightarrow> [y])\<rparr>))))"
  by (simp add: CheckReadable_def Read_pos bytes_Buffer_Write_def slice_store_one Let_def
      split: list.splits prod.splits)

lemma CheckReadable_Some:
  assumes "CheckReadable ops read0 now sc timeout = Inr (err, sc')"
  obtains s c where "sc = Some (s\<lparr>Conn := Some c\<rparr>)"
proof -
  from assms obtain s where s: "sc = Some s"
    by (cases sc) (auto simp: CheckReadable_def)
  with assms obtain c where "Conn s = Some c"
    by (cases "Conn s") (auto simp: CheckReadable_def)
  then have "s = s\<lparr>Conn := Some c\<rparr>" by simp
  with s that show thesis by metis
qed

lemma CheckReadable_pending:
  assumes "CheckReadable ops read0 now sc timeout = Inr (err, sc')"
    and "length (pending sc) \<le> 1"
  shows "length (pending sc') \<le> 1"
proof -
  from assms(1) obtain s c where sc: "sc = Some (s\<lparr>Conn := Some c\<rparr>)"
    by (rule CheckReadable_Some)
  show ?thesis
    using assms unfolding sc CheckReadable_eq
    by (auto simp: pending_def Let_def split: list.splits prod.splits)
qed

lemma CheckReadable_read0_irrelevant:
  "CheckReadable ops read0 now sc timeout = CheckReadable ops read0' now sc timeout"
proof (cases sc)
  case None
  then show ?thesis by (simp add: CheckReadable_def)
next
  case (Some s)
  show ?thesis
  proof (cases "Conn s")
    case None
    with Some show ?thesis by (simp add: CheckReadable_def)
  next
    case (Some c)
    then have "s = s\<lparr>Conn := Some c\<rparr>" by simp
    then have "sc = Some (s\<lparr>Conn := Some c\<rparr>)" using \<open>sc = Some s\<close> by simp
    then show ?thesis by (simp only: CheckReadable_eq)
  qed
qed

lemma read0_spec_bounded: "read0_bounded (read0_spec ops now d)"
  unfolding read0_bounded_def read0_spec_def
  by (auto split: sum.splits dest: CheckReadable_pending)

lemma run_pending:
  assumes "read0_bounded read0"
  shows "run ops read0 sc calls = Inr (rs, sc') \<Longrightarrow> length (pending sc) \<le> 1 \<Longrightarrow>
         length (pending sc') \<le> 1"
proof (induction calls arbitrary: sc rs)
  case Nil
  then show ?case by simp
next
  case (Cons a calls)
  show ?case
  proof (cases a)
    case (CallRead p)
    with Cons.prems(1) obtain n err p' sc1 rs1 where
      rd: "socketConn_Read ops read0 sc p = Inr ((n, err), p', sc1)" and
      rn: "run ops read0 sc1 calls = Inr (rs1, sc')"
      by (auto split: sum.splits)
    have "length (pending sc1) \<le> 1"
    proof (cases "p = []")
      case True
      with rd obtain e where "read0 sc = Inr (e, sc1)"
        by (auto simp: Read_zero split: sum.splits)
      with assms Cons.prems(2) show ?thesis
        unfolding read0_bounded_def by blast
    next
      case False
      then have "0 < length p" by simp
      from Read_pending[OF rd this] Cons.prems(2) show ?thesis by simp
    qed
    with Cons.IH[OF rn] show ?thesis by blast
  next
    case (CallCheckReadable now t)
    with Cons.prems(1) obtain err sc1 rs1 where
      ck: "CheckReadable ops read0 now sc t = Inr (err, sc1)" and
      rn: "run ops read0 sc1 calls = Inr (rs1, sc')"
      by (auto split: sum.splits)
    from CheckReadable_pending[OF ck Cons.prems(2)] Cons.IH[OF rn] show ?thesis by blast
  qed
qed

lemma probes_then_Read:
  "buf s = [x] \<Longrightarrow> Conn s = Some c \<Longrightarrow> 0 < length p \<Longrightarrow>
   \<exists>rs n err p' sc'.
     run ops read0 (Some s) (map (case_prod CallCheckReadable) probes @ [CallRead p])
       = Inr (rs @ [RetRead n err p'], sc') \<and> 0 < n \<and> take 1 p' = [x]"
proof (induction probes arbitrary: s c)
  case Nil
  show ?case
  proof (cases "length p \<le> 1")
    case True
    with Nil have "length p = 1" by (cases p) auto
    with Nil show ?thesis by (simp add: Read_pos)
  next
    case False
    obtain d e c' where "conn_Read ops c (length p - 1) = (d, e, c')"
      by (cases "conn_Read ops c (length p - 1)")
    with False Nil show ?thesis by (simp add: Read_pos)
  qed
next
  case (Cons a probes)
  obtain now t where a: "a = (now, t)" by (cases a)
  from Cons.prems(2) have s: "s = s\<lparr>Conn := Some c\<rparr>" by simp
  define s1 where "s1 = s\<lparr>Conn := Some (conn_SetReadDeadline ops
                            (conn_SetReadDeadline ops c (time_Add now t)) time_zero)\<rparr>"
  have ck: "CheckReadable ops read0 now (Some s) t = Inr (None, Some s1)"
    using Cons.prems(1) by (subst s, subst CheckReadable_eq) (simp add: s1_def)
  have "buf s1 = [x]" and "Conn s1 = Some (conn_SetReadDeadline ops
                            (conn_SetReadDeadline ops c (time_Add now t)) time_zero)"
    using Cons.prems(1) by (simp_all add: s1_def)
  from Cons.IH[OF this Cons.prems(3)] obtain rs n err p' sc' where
    "run ops read0 (Some s1) (map (case_prod CallCheckReadable) probes @ [CallRead p])
       = Inr (rs @ [RetRead n err p'], sc')" "0 < n" "take 1 p' = [x]"
    by blast
  with ck a have
    "run ops read0 (Some s) (map (case_prod CallCheckReadable) (a # probes) @ [CallRead p])
       = Inr ((RetCheckReadable None # rs) @ [RetRead n err p'], sc') \<and> 0 < n \<and> take 1 p' = [x]"
    by simp
  then show ?case by blast
qed

section \<open>The stream through the wrapper\<close>

lemma Read_returns:
  assumes "0 < length p" and "Conn s = Some c"
  shows "\<exists>n e p' s' c'. socketConn_Read ops read0 (Some s) p = Inr ((n, e), p', Some s') \<and>
           Conn s' = Some c'"
proof (cases "length p \<le> length (buf s)")
  case True
  with assms show ?thesis by (simp add: Read_pos)
next
  case False
  obtain d e c' where "conn_Read ops c (length p - length (buf s)) = (d, e, c')"
    by (cases "conn_Read ops c (length p - length (buf s))")
  with False assms show ?thesis by (simp add: Read_pos)
qed

lemma CheckReadable_returns:
  assumes "Conn s = Some c"
  shows "\<exists>e s' c'. CheckReadable ops read0 now (Some s) timeout = Inr (e, Some s') \<and>
           Conn s' = Some c'"
proof -
  from assms have s: "s = s\<lparr>Conn := Some c\<rparr>" by simp
  obtain d e c2 where
    "conn_Read ops (conn_SetReadDeadline ops c (time_Add now timeout)) 1 = (d, e, c2)"
    by (cases "conn_Read ops (conn_SetReadDeadline ops c (time_Add now timeout)) 1")
  moreover have "CheckReadable ops read0 now (Some s) timeout =
      CheckReadable ops read0 now (Some (s\<lparr>Conn := Some c\<rparr>)) timeout"
    using s by simp
  ultimately show ?thesis
    by (simp add: CheckReadable_eq split: list.splits)
qed

lemma run_returns:
  "list_all positive_call calls \<Longrightarrow> Conn s = Some c \<Longrightarrow>
   \<exists>rs sc'. run ops read0 (Some s) calls = Inr (rs, sc')"
proof (induction calls arbitrary: s c)
  case Nil
  then show ?case by simp
next
  case (Cons a calls)
  from Cons.prems(1) have rest: "list_all positive_call calls" by simp
  show ?case
  proof (cases a)
    case (CallRead p)
    with Cons.prems(1) have "0 < length p" by simp
    from Read_returns[OF this Cons.prems(2)] obtain n e p' s' c' where
      rd: "socketConn_Read ops read0 (Some s) p = Inr ((n, e), p', Some s')" and
      c': "Conn s' = Some c'"
      by blast
    from Cons.IH[OF rest c'] obtain rs sc' where
      "run ops read0 (Some s') calls = Inr (rs, sc')" by blast
    with rd CallRead show ?thesis by simp
  next
    case (CallCheckReadable now t)
    from CheckReadable_returns[OF Cons.prems(2)] obtain e s' c' where
      ck: "CheckReadable ops read0 now (Some s) t = Inr (e, Some s')" and
      c': "Conn s' = Some c'"
      by blast
    from Cons.IH[OF rest c'] obtain rs sc' where
      "run ops read0 (Some s') calls = Inr (rs, sc')" by blast
    with ck CallCheckReadable show ?thesis by simp
  qed
qed

lemma logged_Read:
  "conn_Read (logged ops) (c, l) m =
     (let (d, e, c') = conn_Read ops c m in (d, e, (c', l @ d)))"
  by (simp add: logged_def)

lemma logged_SetReadDeadline:
  "conn_SetReadDeadline (logged ops) (c, l) t = (conn_SetReadDeadline ops c t, l)"
  by (simp add: logged_def)

lemma reader_contractD:
  "reader_contract ops \<Longrightarrow> conn_Read ops c m = (d, e, c') \<Longrightarrow> length d \<le> m"
  unfolding reader_contract_def by (metis fst_conv)

lemma Read_stream:
  assumes "reader_contract ops"
    and "0 < length p"
    and "socketConn_Read (logged ops) read0 sc p = Inr ((n, e), p', sc')"
  shows "\<exists>d. delivered sc' = delivered sc @ d \<and> take n p' @ pending sc' = pending sc @ d"
proof -
  from assms(3,2) obtain s where sc: "sc = Some s"
    by (cases sc) (auto simp: socketConn_Read_def)
  show ?thesis
  proof (cases "length p \<le> length (buf s)")
    case True
    with assms(2,3) show ?thesis
      unfolding sc by (auto simp: Read_pos pending_def delivered_def)
  next
    case False
    with assms(2,3) obtain c l where c: "Conn s = Some (c, l)"
      unfolding sc by (cases "Conn s") (auto simp: Read_pos)
    obtain d e' c' where r: "conn_Read ops c (length p - length (buf s)) = (d, e', c')"
      by (cases "conn_Read ops c (length p - length (buf s))")
    from reader_contractD[OF assms(1) r] have fit: "length d \<le> length p - length (buf s)" .
    from False assms(2,3) c r fit show ?thesis
      unfolding sc
      by (auto simp: Read_pos logged_Read pending_def delivered_def slice_store_fits)
  qed
qed

lemma CheckReadable_stream:
  assumes "reader_contract ops"
    and "CheckReadable (logged ops) read0 now sc timeout = Inr (e, sc')"
    and "length (pending sc) \<le> 1"
  shows "\<exists>d. delivered sc' = delivered sc @ d \<and> pending sc' = pending sc @ d"
proof -
  from assms(2) obtain s cl where sc: "sc = Some (s\<lparr>Conn := Some cl\<rparr>)"
    by (rule CheckReadable_Some)
  obtain c l where cl: "cl = (c, l)" by (cases cl)
  show ?thesis
  proof (cases "buf s")
    case Nil
    obtain d e' c' where
      r: "conn_Read ops (conn_SetReadDeadline ops c (time_Add now timeout)) 1 = (d, e', c')"
      by (cases "conn_Read ops (conn_SetReadDeadline ops c (time_Add now timeout)) 1")
    from reader_contractD[OF assms(1) r] have "length d \<le> 1" .
    then have "(case d of [] \<Rightarrow> [] | y # ys \<Rightarrow> [y]) = d"
      by (cases d) auto
    with assms(2) Nil r show ?thesis
      unfolding sc cl CheckReadable_eq
      by (auto simp: logged_Read logged_SetReadDeadline pending_def delivered_def)
  next
    case (Cons x xs)
    with assms(3) have "xs = []" unfolding sc by (simp add: pending_def)
    with assms(2) Cons show ?thesis
      unfolding sc cl CheckReadable_eq
      by (auto simp: logged_SetReadDeadline pending_def delivered_def)
  qed
qed

lemma run_stream:
  assumes "reader_contract ops"
  shows "run (logged ops) read0 sc calls = Inr (rs, sc') \<Longrightarrow> list_all positive_call calls \<Longrightarrow>
         length (pending sc) \<le> 1 \<Longrightarrow>
         \<exists>d. delivered sc' = delivered sc @ d \<and> received rs @ pending sc' = pending sc @ d"
proof (induction calls arbitrary: sc rs)
  case Nil
  then show ?case by (simp add: received_def)
next
  case (Cons a calls)
  show ?case
  proof (cases a)
    case (CallRead p)
    with Cons.prems(1) obtain n err p' sc1 rs1 where
      rd: "socketConn_Read (logged ops) read0 sc p = Inr ((n, err), p', sc1)" and
      rn: "run (logged ops) read0 sc1 calls = Inr (rs1, sc')" and
      rs: "rs = RetRead n err p' # rs1"
      by (auto split: sum.splits)
    from CallRead Cons.prems(2) have pos: "0 < length p" and rest: "list_all positive_call calls"
      by simp_all
    from Read_pending[OF rd pos] Cons.prems(3) have b1: "length (pending sc1) \<le> 1" by simp
    from Read_stream[OF assms pos rd] obtain d1 where
      d1: "delivered sc1 = delivered sc @ d1" "take n p' @ pending sc1 = pending sc @ d1"
      by blast
    from Cons.IH[OF rn rest b1] obtain d2 where
      d2: "delivered sc' = delivered sc1 @ d2" "received rs1 @ pending sc' = pending sc1 @ d2"
      by blast
    have "received rs @ pending sc' = take n p' @ (received rs1 @ pending sc')"
      by (simp add: rs received_def)
    also have "\<dots> = (take n p' @ pending sc1) @ d2" by (simp add: d2)
    also have "\<dots> = pending sc @ (d1 @ d2)" by (simp add: d1)
    finally show ?thesis using d1(1) d2(1) by auto
  next
    case (CallCheckReadable now t)
    with Cons.prems(1) obtain err sc1 rs1 where
      ck: "CheckReadable (logged ops) read0 now sc t = Inr (err, sc1)" and
      rn: "run (logged ops) read0 sc1 calls = Inr (rs1, sc')" and
      rs: "rs = RetCheckReadable err # rs1"
      by (auto split: sum.splits)
    from Cons.prems(2) have rest: "list_all positive_call calls" by simp
    from CheckReadable_pending[OF ck Cons.prems(3)] have b1: "length (pending sc1) \<le> 1" .
    from CheckReadable_stream[OF assms ck Cons.prems(3)] obtain d1 where
      d1: "delivered sc1 = delivered sc @ d1" "pending sc1 = pending sc @ d1"
      by blast
    from Cons.IH[OF rn rest b1] obtain d2 where
      d2: "delivered sc' = delivered sc1 @ d2" "received rs1 @ pending sc' = pending sc1 @ d2"
      by blast
    have "received rs @ pending sc' = pending sc @ (d1 @ d2)"
      by (simp add: rs received_def d2[unfolded received_def] d1)
    then show ?thesis using d1(1) d2(1) by auto
  qed
qed

lemma run_full:
  "run ops read0 sc calls = Inr (rs, sc') \<Longrightarrow> list_all ret_full rs \<Longrightarrow>
   length (received rs) = sum_list (map call_size calls)"
proof (induction calls arbitrary: sc rs)
  case Nil
  then show ?case by (simp add: received_def)
next
  case (Cons a calls)
  show ?case
  proof (cases a)
    case (CallRead p)
    with Cons.prems(1) obtain n err p' sc1 rs1 where
      rd: "socketConn_Read ops read0 sc p = Inr ((n, err), p', sc1)" and
      rn: "run ops read0 sc1 calls = Inr (rs1, sc')" and
      rs: "rs = RetRead n err p' # rs1"
      by (auto split: sum.splits)
    from Cons.prems(2) rs have full: "n = length p'" "list_all ret_full rs1" by simp_all
    from Read_length[OF rd] full(1) Cons.IH[OF rn full(2)] show ?thesis
      by (simp add: rs CallRead received_def)
  next
    case (CallCheckReadable now t)
    with Cons.prems(1) obtain err sc1 rs1 where
      rn: "run ops read0 sc1 calls = Inr (rs1, sc')" and
      rs: "rs = RetCheckReadable err # rs1"
      by (auto split: sum.splits)
    from Cons.prems(2) rs have "list_all ret_full rs1" by simp
    from Cons.IH[OF rn this] show ?thesis
      by (simp add: rs CallCheckReadable received_def)
  qed
qed

section \<open>Runs on the example connection\<close>

lemma test_ops_contract: "reader_contract test_ops"
  by (simp add: reader_contract_def test_ops_def test_Read_def)

lemma run_example:
  "run (logged test_ops) (read0_spec (logged test_ops) 0 1)
       (Some \<lparr>Conn = Some (\<lparr>wire = [1, 2, 3, 4, 5], deadline = 0\<rparr>, []), buf = []\<rparr>)
       [CallCheckReadable 100 5, CallRead [0, 0], CallCheckReadable 200 5,
        CallCheckReadable 300 5, CallRead [0, 0, 0]]
     = Inr ([RetCheckReadable None, RetRead 2 None [1, 2], RetCheckReadable None,
             RetCheckReadable None, RetRead 3 (Some io_EOF) [3, 4, 5]],
            Some \<lparr>Conn = Some (\<lparr>wire = [], deadline = 0\<rparr>, [1, 2, 3, 4, 5]), buf = []\<rparr>)"
  by (simp add: CheckReadable_def socketConn_Read_def bytes_Buffer_Read_def bytes_Buffer_Write_def
      slice_store_def logged_def test_ops_def test_Read_def time_Add_def time_zero_def Let_def)

lemma run_example_zero:
  "run test_ops (read0_spec test_ops 50 1)
       (Some \<lparr>Conn = Some \<lparr>wire = [7, 8], deadline = 0\<rparr>, buf = []\<rparr>)
       [CallCheckReadable 10 1, CallRead [], CallCheckReadable 20 1]
     = Inr ([RetCheckReadable None, RetRead 0 None [], RetCheckReadable None],
            Some \<lparr>Conn = Some \<lparr>wire = [8], deadline = 0\<rparr>, buf = [7]\<rparr>)"
  by (simp add: read0_spec_def CheckReadable_def socketConn_Read_def bytes_Buffer_Read_def
      bytes_Buffer_Write_def slice_store_def test_ops_def test_Read_def time_Add_def
      time_zero_def Let_def)

section \<open>The claims\<close>

text \<open>
  C1. A \<^verbatim>\<open>Read\<close> with a slice of positive length on a non-nil receiver takes the bytes
  of the buffer first, oldest first. When the buffer holds at least \<^verbatim>\<open>len(p)\<close> bytes
  the call returns \<^verbatim>\<open>(len(p), nil)\<close> and the connection is not touched: the receiver
  changes in its buffer only. Otherwise the connection is asked for the
  \<^verbatim>\<open>len(p) - len(buf)\<close> bytes that are missing, what it delivers is stored behind the
  buffered bytes, and the call returns the sum of the two counts with the error of the
  connection's read (on a nil connection this second case panics).
\<close>

theorem Read_pending_then_wire:
  assumes "0 < length p"
  shows "socketConn_Read ops read0 (Some s) p =
     (if length p \<le> length (buf s) then
        Inr ((length p, None), take (length p) (buf s),
             Some (s\<lparr>buf := drop (length p) (buf s)\<rparr>))
      else (case Conn s of
              None \<Rightarrow> Inl NilPointerDereference
            | Some c \<Rightarrow>
                (let (d, e, c') = conn_Read ops c (length p - length (buf s))
                 in Inr ((length (buf s) + length d, e),
                         buf s @ slice_store (drop (length (buf s)) p) d,
                         Some (s\<lparr>Conn := Some c', buf := []\<rparr>)))))"
  using assms by (rule Read_pos)

text \<open>
  On the example connection: one byte buffered, three on the wire. A slice of three
  takes the buffered byte and two from the wire; a slice of one takes the buffered byte
  and leaves the wire alone.
\<close>

theorem Read_pending_then_wire_witness:
  "socketConn_Read test_ops (read0_spec test_ops 0 1)
       (Some \<lparr>Conn = Some \<lparr>wire = [3, 4, 5], deadline = 0\<rparr>, buf = [1]\<rparr>) [0, 0, 0]
     = Inr ((3, None), [1, 3, 4],
            Some \<lparr>Conn = Some \<lparr>wire = [5], deadline = 0\<rparr>, buf = []\<rparr>)
   \<and> socketConn_Read test_ops (read0_spec test_ops 0 1)
       (Some \<lparr>Conn = Some \<lparr>wire = [3, 4, 5], deadline = 0\<rparr>, buf = [1]\<rparr>) [0]
     = Inr ((1, None), [1],
            Some \<lparr>Conn = Some \<lparr>wire = [3, 4, 5], deadline = 0\<rparr>, buf = []\<rparr>)"
proof -
  have a: "0 < length [0, 0, 0 :: byte]" and b: "0 < length [0 :: byte]" by simp_all
  show ?thesis
    using Read_pending_then_wire [OF a, of test_ops "read0_spec test_ops 0 1"
            "\<lparr>Conn = Some \<lparr>wire = [3, 4, 5], deadline = 0\<rparr>, buf = [1]\<rparr>"]
          Read_pending_then_wire [OF b, of test_ops "read0_spec test_ops 0 1"
            "\<lparr>Conn = Some \<lparr>wire = [3, 4, 5], deadline = 0\<rparr>, buf = [1]\<rparr>"]
    by (simp add: test_ops_def test_Read_def slice_store_def)
qed

text \<open>
  C2. Take any connection that keeps the reader's contract, wrap it freshly, and make
  any sequence of positive-length \<^verbatim>\<open>Read\<close> calls and \<^verbatim>\<open>CheckReadable\<close> calls on
  the wrapper. The calls all return. Let \<open>B\<close> be the bytes the connection has
  delivered, in the order it delivered them. Then the bytes the \<^verbatim>\<open>Read\<close> calls
  returned, in order, followed by the bytes still buffered, are exactly \<open>B\<close>: a probe
  neither duplicates, drops nor reorders a byte. In particular, when the slices of the
  \<^verbatim>\<open>Read\<close> calls were all filled and their sizes sum to the length of \<open>B\<close>, the
  calls returned exactly \<open>B\<close>.
\<close>

theorem probes_preserve_stream:
  assumes "reader_contract ops" and "list_all positive_call calls"
  shows "\<exists>rs sc'.
           run (logged ops) read0 (Some \<lparr>Conn = Some (c, []), buf = []\<rparr>) calls = Inr (rs, sc') \<and>
           received rs @ pending sc' = delivered sc' \<and>
           (sum_list (map call_size calls) = length (delivered sc') \<and> list_all ret_full rs
              \<longrightarrow> received rs = delivered sc')"
proof -
  have "Conn \<lparr>Conn = Some (c, []), buf = []\<rparr> = Some (c, [])" by simp
  from run_returns[OF assms(2) this] obtain rs sc' where
    rn: "run (logged ops) read0 (Some \<lparr>Conn = Some (c, []), buf = []\<rparr>) calls = Inr (rs, sc')"
    by blast
  have "length (pending (Some \<lparr>Conn = Some (c, []), buf = []\<rparr>)) \<le> 1"
    by (simp add: pending_def)
  from run_stream[OF assms(1) rn assms(2) this]
  have inv: "received rs @ pending sc' = delivered sc'"
    by (auto simp: pending_def delivered_def)
  have "received rs = delivered sc'"
    if "sum_list (map call_size calls) = length (delivered sc')" and "list_all ret_full rs"
  proof -
    from run_full[OF rn that(2)] that(1)
    have "length (received rs) = length (delivered sc')" by simp
    with inv show ?thesis by (metis append_eq_append_conv append_Nil2)
  qed
  with rn inv show ?thesis by blast
qed

text \<open>
  Five bytes on the example connection, read by a slice of two and a slice of three with
  three probes in between and before.
\<close>

theorem probes_preserve_stream_witness:
  "reader_contract test_ops
   \<and> list_all positive_call
        [CallCheckReadable 100 5, CallRead [0, 0], CallCheckReadable 200 5,
         CallCheckReadable 300 5, CallRead [0, 0, 0]]
   \<and> run (logged test_ops) (read0_spec (logged test_ops) 0 1)
        (Some \<lparr>Conn = Some (\<lparr>wire = [1, 2, 3, 4, 5], deadline = 0\<rparr>, []), buf = []\<rparr>)
        [CallCheckReadable 100 5, CallRead [0, 0], CallCheckReadable 200 5,
         CallCheckReadable 300 5, CallRead [0, 0, 0]]
      = Inr ([RetCheckReadable None, RetRead 2 None [1, 2], RetCheckReadable None,
              RetCheckReadable None, RetRead 3 (Some io_EOF) [3, 4, 5]],
             Some \<lparr>Conn = Some (\<lparr>wire = [], deadline = 0\<rparr>, [1, 2, 3, 4, 5]), buf = []\<rparr>)
   \<and> received [RetCheckReadable None, RetRead 2 None [1, 2], RetCheckReadable None,
                RetCheckReadable None, RetRead 3 (Some io_EOF) [3, 4, 5]]
      = [1, 2, 3, 4, 5]"
proof -
  have pos: "list_all positive_call
        [CallCheckReadable 100 5, CallRead [0, 0], CallCheckReadable 200 5,
         CallCheckReadable 300 5, CallRead [0, 0, 0]]"
    by simp
  from probes_preserve_stream [OF test_ops_contract pos,
         of "read0_spec (logged test_ops) 0 1" "\<lparr>wire = [1, 2, 3, 4, 5], deadline = 0\<rparr>"]
  have "received [RetCheckReadable None, RetRead 2 None [1, 2], RetCheckReadable None,
                  RetCheckReadable None, RetRead 3 (Some io_EOF) [3, 4, 5]]
        = [1, 2, 3, 4, 5]"
    unfolding run_example by (simp add: delivered_def pending_def)
  with test_ops_contract pos run_example show ?thesis by simp
qed

text \<open>
  Without the condition that the slices were filled the last statement fails: sizes that
  sum to the length of \<open>B\<close> do not make the \<^verbatim>\<open>Read\<close> calls return \<open>B\<close>. \<^verbatim>\<open>Read\<close>
  asks the connection once and returns what that one read gave. On the connection that
  hands over one byte per read, with the bytes 1 and 2 to come, a \<^verbatim>\<open>Read\<close> with a
  slice of two returns one byte and the probe after it takes the second byte into the
  buffer: the connection has delivered two bytes, the slice sizes sum to two, and the
  caller has received the first byte only.
\<close>

theorem short_read_not_whole_stream:
  "reader_contract drip_ops
   \<and> list_all positive_call [CallRead [0, 0], CallCheckReadable 0 1]
   \<and> run (logged drip_ops) (read0_spec (logged drip_ops) 0 1)
        (Some \<lparr>Conn = Some ([1, 2], []), buf = []\<rparr>)
        [CallRead [0, 0], CallCheckReadable 0 1]
      = Inr ([RetRead 1 None [1, 0], RetCheckReadable None],
             Some \<lparr>Conn = Some ([], [1, 2]), buf = [2]\<rparr>)
   \<and> delivered (Some \<lparr>Conn = Some ([] :: byte list, [1, 2]), buf = [2]\<rparr>) = [1, 2]
   \<and> sum_list (map call_size [CallRead [0, 0], CallCheckReadable 0 1])
      = length (delivered (Some \<lparr>Conn = Some ([] :: byte list, [1, 2]), buf = [2]\<rparr>))
   \<and> received [RetRead 1 None [1, 0], RetCheckReadable None] = [1]
   \<and> received [RetRead 1 None [1, 0], RetCheckReadable None]
      \<noteq> delivered (Some \<lparr>Conn = Some ([] :: byte list, [1, 2]), buf = [2]\<rparr>)"
proof -
  have "reader_contract drip_ops"
    by (simp add: reader_contract_def drip_ops_def drip_Read_def split: list.splits)
  moreover have "run (logged drip_ops) (read0_spec (logged drip_ops) 0 1)
        (Some \<lparr>Conn = Some ([1, 2], []), buf = []\<rparr>)
        [CallRead [0, 0], CallCheckReadable 0 1]
      = Inr ([RetRead 1 None [1, 0], RetCheckReadable None],
             Some \<lparr>Conn = Some ([], [1, 2]), buf = [2]\<rparr>)"
    by (simp add: CheckReadable_def socketConn_Read_def bytes_Buffer_Read_def
        bytes_Buffer_Write_def slice_store_def logged_def drip_ops_def drip_Read_def
        time_Add_def time_zero_def Let_def)
  ultimately show ?thesis
    by (simp add: delivered_def received_def)
qed

text \<open>
  C3. On a receiver with a connection, \<open>CheckReadable\<close> sets the read deadline to
  \<open>now + timeout\<close> and reads one byte by the receiver's \<^verbatim>\<open>Read\<close>. With a byte
  buffered that byte is taken from the front of the buffer and appended at its back,
  the connection is not read, and the error is nil. With the buffer empty the
  connection is read with a slice of one; a byte it delivers is put in the buffer, and
  the error is the one of that read. In both cases the deadline is set to the zero
  time afterwards, whatever the error.
\<close>

theorem CheckReadable_steps:
  "CheckReadable ops read0 now (Some (s\<lparr>Conn := Some c\<rparr>)) timeout =
     (case buf s of
        x # xs \<Rightarrow>
          Inr (None,
               Some (s\<lparr>Conn := Some (conn_SetReadDeadline ops
                                        (conn_SetReadDeadline ops c (time_Add now timeout)) time_zero),
                       buf := xs @ [x]\<rparr>))
      | [] \<Rightarrow>
          (let (d, e, c2) = conn_Read ops (conn_SetReadDeadline ops c (time_Add now timeout)) 1
           in Inr (e,
                   Some (s\<lparr>Conn := Some (conn_SetReadDeadline ops c2 time_zero),
                           buf := (case d of [] \<Rightarrow> [] | y # ys \<Rightarrow> [y])\<rparr>))))"
  by (rule CheckReadable_eq)

text \<open>
  C4. When the probe of \<open>CheckReadable\<close> reads a byte \<open>x\<close> from the wire (the buffer
  is empty, so the read reaches the connection), with or without an error \<open>e\<close> in the
  same read, the call returns \<open>e\<close> and the buffer holds \<open>x\<close>. Whatever probes follow,
  the next \<^verbatim>\<open>Read\<close> with a slice of positive length returns at least one byte, and
  the first one is \<open>x\<close>.
\<close>

theorem CheckReadable_keeps_probed_byte:
  assumes "buf s = []" and "Conn s = Some c"
    and "conn_Read ops (conn_SetReadDeadline ops c (time_Add now timeout)) 1 = (x # xs, e, c2)"
    and "0 < length p"
  shows "\<exists>s'. CheckReadable ops read0 now (Some s) timeout = Inr (e, Some s') \<and> buf s' = [x] \<and>
           (\<exists>rs n err p' sc'.
              run ops read0 (Some s') (map (case_prod CallCheckReadable) probes @ [CallRead p])
                = Inr (rs @ [RetRead n err p'], sc') \<and> 0 < n \<and> take 1 p' = [x])"
proof -
  from assms(2) have s: "s = s\<lparr>Conn := Some c\<rparr>" by simp
  define s' where "s' = s\<lparr>Conn := Some (conn_SetReadDeadline ops c2 time_zero), buf := [x]\<rparr>"
  have ck: "CheckReadable ops read0 now (Some s) timeout = Inr (e, Some s')"
    using assms(1,3) by (subst s, subst CheckReadable_eq) (simp add: s'_def)
  have "buf s' = [x]" and "Conn s' = Some (conn_SetReadDeadline ops c2 time_zero)"
    by (simp_all add: s'_def)
  from probes_then_Read[OF this assms(4)] ck \<open>buf s' = [x]\<close> show ?thesis by blast
qed

text \<open>
  On the example connection the last byte comes together with \<^verbatim>\<open>io.EOF\<close>: the probe
  reports the error and keeps the byte, and the next \<^verbatim>\<open>Read\<close> returns it.
\<close>

theorem CheckReadable_keeps_probed_byte_witness:
  "conn_Read test_ops (conn_SetReadDeadline test_ops \<lparr>wire = [9], deadline = 0\<rparr> (time_Add 100 5)) 1
     = ([9], Some io_EOF, \<lparr>wire = [], deadline = 105\<rparr>)
   \<and> CheckReadable test_ops (read0_spec test_ops 0 1) 100
        (Some \<lparr>Conn = Some \<lparr>wire = [9], deadline = 0\<rparr>, buf = []\<rparr>) 5
     = Inr (Some io_EOF, Some \<lparr>Conn = Some \<lparr>wire = [], deadline = 0\<rparr>, buf = [9]\<rparr>)
   \<and> run test_ops (read0_spec test_ops 0 1)
        (Some \<lparr>Conn = Some \<lparr>wire = [], deadline = 0\<rparr>, buf = [9]\<rparr>)
        [CallCheckReadable 200 5, CallRead [0, 0]]
     = Inr ([RetCheckReadable None, RetRead 1 (Some io_EOF) [9, 0]],
            Some \<lparr>Conn = Some \<lparr>wire = [], deadline = 0\<rparr>, buf = []\<rparr>)"
proof -
  have rd: "conn_Read test_ops
              (conn_SetReadDeadline test_ops \<lparr>wire = [9], deadline = 0\<rparr> (time_Add 100 5)) 1
            = ([9], Some io_EOF, \<lparr>wire = [], deadline = 105\<rparr>)"
    by (simp add: test_ops_def test_Read_def time_Add_def)
  have "buf \<lparr>Conn = Some \<lparr>wire = [9], deadline = 0\<rparr>, buf = []\<rparr> = []"
    and "Conn \<lparr>Conn = Some \<lparr>wire = [9], deadline = 0\<rparr>, buf = []\<rparr> = Some \<lparr>wire = [9], deadline = 0\<rparr>"
    and "0 < length [0, 0 :: byte]"
    by simp_all
  from CheckReadable_keeps_probed_byte [OF this(1,2) rd this(3),
         of "read0_spec test_ops 0 1" "[(200, 5)]"] rd
  show ?thesis
    by (simp add: CheckReadable_def socketConn_Read_def bytes_Buffer_Read_def
        bytes_Buffer_Write_def slice_store_def test_ops_def test_Read_def time_Add_def
        time_zero_def Let_def)
qed

text \<open>
  C5. Wrapping is idempotent: wrapping the pointer that \<open>wrapSocketConn\<close> returned
  returns the same pointer and allocates nothing, so wrapping twice is wrapping once;
  and a connection that already is a \<^verbatim>\<open>*socketConn\<close> is returned as it is.
\<close>

theorem wrapSocketConn_idempotent:
  "wrapSocketConn (snd (wrapSocketConn h c)) (Some (SocketConnPtr (fst (wrapSocketConn h c))))
     = wrapSocketConn h c
   \<and> wrapSocketConn h (Some (SocketConnPtr sc)) = (sc, h)"
  by (simp add: wrapSocketConn_def)

text \<open>
  C6. With a non-nil error \<open>createSocketConnFromReturn\<close> returns the nil pointer and the
  error it was given, whatever the connection is, and the store is as before: no struct
  is allocated.
\<close>

theorem createSocketConnFromReturn_error:
  "createSocketConnFromReturn h conn (Some e) = ((None, Some e), h)"
  by (simp add: createSocketConnFromReturn_def)

text \<open>
  C7. With a nil error \<open>createSocketConnFromReturn\<close> always allocates a new struct
  that holds the connection it was given and an empty buffer, also when that connection
  is a \<^verbatim>\<open>*socketConn\<close> already. For a nil connection and for a connection of another
  type this is what \<open>wrapSocketConn\<close> returns.
\<close>

theorem createSocketConnFromReturn_nil_error:
  "createSocketConnFromReturn h conn None
     = ((Some (length h), None), h @ [\<lparr>Conn = conn, buf = []\<rparr>])
   \<and> createSocketConnFromReturn h None None
     = ((fst (wrapSocketConn h None), None), snd (wrapSocketConn h None))
   \<and> createSocketConnFromReturn h (Some (Other c)) None
     = ((fst (wrapSocketConn h (Some (Other c))), None), snd (wrapSocketConn h (Some (Other c))))"
  by (simp add: createSocketConnFromReturn_def wrapSocketConn_def new_socketConn_def)

text \<open>
  The claim as the specification has it, \<open>fromResult(conn, nil) = (wrap(conn), nil)\<close>,
  fails for a connection that is wrapped already: with one struct in the store and a
  pointer to it as the connection, \<open>wrapSocketConn\<close> returns that pointer and
  \<open>createSocketConnFromReturn\<close> returns a pointer to a second struct around it.
\<close>

theorem createSocketConnFromReturn_rewraps:
  "createSocketConnFromReturn [\<lparr>Conn = Some (Other (7::nat)), buf = []\<rparr>]
       (Some (SocketConnPtr (Some 0))) None
     = ((Some 1, None),
        [\<lparr>Conn = Some (Other 7), buf = []\<rparr>,
         \<lparr>Conn = Some (SocketConnPtr (Some 0)), buf = []\<rparr>])
   \<and> wrapSocketConn [\<lparr>Conn = Some (Other (7::nat)), buf = []\<rparr>]
       (Some (SocketConnPtr (Some 0)))
     = (Some 0, [\<lparr>Conn = Some (Other 7), buf = []\<rparr>])
   \<and> fst (createSocketConnFromReturn [\<lparr>Conn = Some (Other (7::nat)), buf = []\<rparr>]
       (Some (SocketConnPtr (Some 0))) None)
     \<noteq> (fst (wrapSocketConn [\<lparr>Conn = Some (Other (7::nat)), buf = []\<rparr>]
          (Some (SocketConnPtr (Some 0)))), None)"
  by (simp add: createSocketConnFromReturn_def wrapSocketConn_def new_socketConn_def)

text \<open>
  C8. \<open>IsOpen\<close> is safe on a nil receiver and on a receiver whose connection is nil:
  it returns false and calls nothing. \<open>CheckReadable\<close> and a \<^verbatim>\<open>Read\<close> with a
  slice of positive length are not: on a nil receiver they panic, \<open>CheckReadable\<close>
  panics on a receiver whose connection is nil, and so does such a \<^verbatim>\<open>Read\<close> when the
  buffer is empty.
\<close>

theorem IsOpen_nil_safe_others_panic:
  "IsOpen checkConn None = Inr (False, None)
   \<and> IsOpen checkConn (Some (s\<lparr>Conn := None\<rparr>)) = Inr (False, Some (s\<lparr>Conn := None\<rparr>))
   \<and> CheckReadable ops read0 now None timeout = Inl NilPointerDereference
   \<and> CheckReadable ops read0 now (Some (s\<lparr>Conn := None\<rparr>)) timeout = Inl NilPointerDereference
   \<and> socketConn_Read ops read0 None (x # xs) = Inl NilPointerDereference
   \<and> socketConn_Read ops read0 (Some (s\<lparr>Conn := None, buf := []\<rparr>)) (x # xs)
       = Inl NilPointerDereference"
  by (simp add: IsOpen_def isValid_def CheckReadable_def socketConn_Read_def
      bytes_Buffer_Read_def)

text \<open>
  The claim as the specification has it, that no operation fails with a nil dereference
  on an absent wrapper or connection, fails at these calls.
\<close>

theorem nil_receiver_panics:
  "CheckReadable test_ops (read0_spec test_ops 0 1) 0 None 1 = Inl NilPointerDereference
   \<and> CheckReadable test_ops (read0_spec test_ops 0 1) 0
        (Some \<lparr>Conn = None, buf = []\<rparr>) 1 = Inl NilPointerDereference
   \<and> socketConn_Read test_ops (read0_spec test_ops 0 1) None [0] = Inl NilPointerDereference
   \<and> socketConn_Read test_ops (read0_spec test_ops 0 1)
        (Some \<lparr>Conn = None, buf = []\<rparr>) [0] = Inl NilPointerDereference"
  by (simp add: CheckReadable_def socketConn_Read_def bytes_Buffer_Read_def)

text \<open>
  C9. Starting from a freshly constructed wrapper, whose buffer is empty, the buffer
  holds at most one byte after every sequence of \<^verbatim>\<open>Read\<close> and \<open>CheckReadable\<close>
  calls that returns. A zero-length \<^verbatim>\<open>Read\<close> is the \<^verbatim>\<open>read0\<close> of the package; the
  theorem holds for every \<^verbatim>\<open>read0\<close> that keeps the bound itself.
\<close>

theorem pending_at_most_one:
  assumes "read0_bounded read0"
    and "run ops read0 (Some \<lparr>Conn = c, buf = []\<rparr>) calls = Inr (rs, sc')"
  shows "length (pending sc') \<le> 1"
  using run_pending[OF assms] by (simp add: pending_def)

text \<open>
  With the \<^verbatim>\<open>read0\<close> of the specification, which keeps the bound: a probe, a
  zero-length read and a second probe leave the one byte that the first probe read.
\<close>

theorem pending_at_most_one_witness:
  "read0_bounded (read0_spec test_ops 50 1)
   \<and> run test_ops (read0_spec test_ops 50 1)
       (Some \<lparr>Conn = Some \<lparr>wire = [7, 8], deadline = 0\<rparr>, buf = []\<rparr>)
       [CallCheckReadable 10 1, CallRead [], CallCheckReadable 20 1]
     = Inr ([RetCheckReadable None, RetRead 0 None [], RetCheckReadable None],
            Some \<lparr>Conn = Some \<lparr>wire = [8], deadline = 0\<rparr>, buf = [7]\<rparr>)
   \<and> length (pending (Some \<lparr>Conn = Some \<lparr>wire = [8], deadline = 0\<rparr>, buf = [7]\<rparr>)) \<le> 1"
  using pending_at_most_one [OF read0_spec_bounded run_example_zero]
    read0_spec_bounded run_example_zero
  by simp

text \<open>
  C10. In every state that a fresh wrapper reaches in which the buffer is not empty (and
  the connection is there), \<open>CheckReadable\<close> returns a nil error, and the receiver
  afterwards differs from the receiver before in the connection only, which has had its
  deadline set and reset and nothing else: the buffer is as it was. The result does not
  depend on what a read of the connection would return.
\<close>

theorem CheckReadable_pending_frame:
  assumes "read0_bounded read0"
    and "run ops read0 (Some \<lparr>Conn = c0, buf = []\<rparr>) calls = Inr (rs, Some s)"
    and "buf s \<noteq> []" and "Conn s = Some c"
  shows "CheckReadable ops read0 now (Some s) timeout =
           Inr (None,
                Some (s\<lparr>Conn := Some (conn_SetReadDeadline ops
                           (conn_SetReadDeadline ops c (time_Add now timeout)) time_zero)\<rparr>))
         \<and> CheckReadable (ops\<lparr>conn_Read := f\<rparr>) read0 now (Some s) timeout =
           CheckReadable ops read0 now (Some s) timeout"
proof -
  from run_pending[OF assms(1,2)] have "length (buf s) \<le> 1" by (simp add: pending_def)
  with assms(3) obtain x where x: "buf s = [x]" by (cases "buf s") auto
  from assms(4) have s: "s = s\<lparr>Conn := Some c\<rparr>" by simp
  have a: "CheckReadable ops' read0 now (Some s) timeout =
           Inr (None,
                Some (s\<lparr>Conn := Some (conn_SetReadDeadline ops'
                           (conn_SetReadDeadline ops' c (time_Add now timeout)) time_zero)\<rparr>))"
    for ops'
    using x by (subst s, subst CheckReadable_eq) simp
  show ?thesis by (simp add: a)
qed

text \<open>
  In the state of the run above, with one byte buffered, a further probe returns nil and
  leaves buffer and wire as they are.
\<close>

theorem CheckReadable_pending_frame_witness:
  "read0_bounded (read0_spec test_ops 50 1)
   \<and> run test_ops (read0_spec test_ops 50 1)
       (Some \<lparr>Conn = Some \<lparr>wire = [7, 8], deadline = 0\<rparr>, buf = []\<rparr>)
       [CallCheckReadable 10 1, CallRead [], CallCheckReadable 20 1]
     = Inr ([RetCheckReadable None, RetRead 0 None [], RetCheckReadable None],
            Some \<lparr>Conn = Some \<lparr>wire = [8], deadline = 0\<rparr>, buf = [7]\<rparr>)
   \<and> CheckReadable test_ops (read0_spec test_ops 50 1) 30
       (Some \<lparr>Conn = Some \<lparr>wire = [8], deadline = 0\<rparr>, buf = [7]\<rparr>) 1
     = Inr (None, Some \<lparr>Conn = Some \<lparr>wire = [8], deadline = 0\<rparr>, buf = [7]\<rparr>)"
proof -
  have "buf \<lparr>Conn = Some \<lparr>wire = [8], deadline = 0\<rparr>, buf = [7]\<rparr> \<noteq> []"
    and "Conn \<lparr>Conn = Some \<lparr>wire = [8], deadline = 0\<rparr>, buf = [7 :: byte]\<rparr>
         = Some \<lparr>wire = [8], deadline = 0\<rparr>"
    by simp_all
  from CheckReadable_pending_frame [OF read0_spec_bounded run_example_zero this, of 30 1]
    read0_spec_bounded run_example_zero
  show ?thesis by (simp add: test_ops_def time_zero_def)
qed

end
